theory Spec2Isabelle
  imports Main "HOL-Library.Word" "HOL-Library.Sublist"
begin

section \<open>Data model\<close>

text \<open>
  Go's \<^verbatim>\<open>[]byte\<close> is a list of 8-bit words. Slice indices and offsets (\<^verbatim>\<open>int\<close>,
  \<^verbatim>\<open>uint\<close>) are natural numbers: every index the code computes is a sum of
  non-negative numbers bounded by a slice length plus a pattern length, far from the
  64-bit limit, so no wrap-around can occur.
\<close>

type_synonym byte = "8 word"

text \<open>
  A run-time panic of Go: an index outside a slice or array (the index, the length), or
  a slice expression whose low bound exceeds the length (the bound, the length). A
  panic is not an \<^verbatim>\<open>error\<close> value: it unwinds the callers.
\<close>

datatype panic =
    IndexOutOfRange int nat
  | SliceBoundsOutOfRange nat nat

text \<open>
  Error values. \<open>Errorf\<close> keeps the format string of \<^verbatim>\<open>fmt.Errorf\<close> and its
  arguments as the source writes them; \<open>MagicNotFoundErr\<close> is the struct of that name
  (fields \<^verbatim>\<open>msg\<close> and \<^verbatim>\<open>magic\<close>); \<open>PathError\<close> (operation, path) and \<open>LinkError\<close>
  (old name, new name) come from package \<^verbatim>\<open>os\<close>; \<open>External\<close> is an error of a
  decompression library.
\<close>

datatype error =
    PathError string string
  | LinkError string string
  | External string
  | MagicNotFoundErr string "byte list"
  | Errorf string "fmt_arg list"
and fmt_arg =
    ArgString string
  | ArgError error
  | ArgInt int

section \<open>The byte search\<close>

text \<open>
  \<^verbatim>\<open>SearchBytes\<close>, the inner loop
  \<^verbatim>\<open>for j := 1; j < len(b); j++ { if dat[i+j] != b[j] { found = false; break } }\<close>.
  The source does not guard the index expression \<^verbatim>\<open>dat[i+j]\<close>; Go panics when
  \<open>i + j\<close> is not below \<^verbatim>\<open>len(dat)\<close>. The result is the value of \<^verbatim>\<open>found\<close> after the
  loop.
\<close>

function inner_loop :: "byte list \<Rightarrow> byte list \<Rightarrow> nat \<Rightarrow> nat \<Rightarrow> panic + bool" where
  "inner_loop dat b i j =
     (if j < length b then
        (if i + j < length dat then
           (if dat ! (i + j) \<noteq> b ! j then Inr False
            else inner_loop dat b i (j + 1))
         else Inl (IndexOutOfRange (int (i + j)) (length dat)))
      else Inr True)"
  by pat_completeness auto
termination
  by (relation "measure (\<lambda>(dat, b, i, j). length b - j)") auto

declare inner_loop.simps [simp del]

text \<open>
  The outer loop \<^verbatim>\<open>for i := 0; i < len(dat); i++\<close>. \<^verbatim>\<open>b[0]\<close> panics on an empty
  pattern. The result is the pair \<^verbatim>\<open>(uint, error)\<close> the function returns; \<open>None\<close> is
  the \<^verbatim>\<open>nil\<close> error.
\<close>

function outer_loop :: "byte list \<Rightarrow> byte list \<Rightarrow> nat \<Rightarrow> panic + (nat \<times> error option)" where
  "outer_loop dat b i =
     (if i < length dat then
        (if b = [] then Inl (IndexOutOfRange 0 0)
         else if dat ! i = b ! 0 then
           (case inner_loop dat b i 1 of
              Inl p \<Rightarrow> Inl p
            | Inr found \<Rightarrow>
                if found then Inr (i, None) else outer_loop dat b (i + 1))
         else outer_loop dat b (i + 1))
      else Inr (0, Some (MagicNotFoundErr ''magic string not found'' b)))"
  by pat_completeness auto
termination
  by (relation "measure (\<lambda>(dat, b, i). length dat - i)") auto

declare outer_loop.simps [simp del]

text \<open>The search over the bytes already read: the loops, started at index 0.\<close>

definition search :: "byte list \<Rightarrow> byte list \<Rightarrow> panic + (nat \<times> error option)" where
  "search dat b = outer_loop dat b 0"

text \<open>
  What the specification calls an occurrence of the pattern at index \<open>i\<close>:
  \<^verbatim>\<open>B[i:i+len(P)] == P\<close>, the slice lying inside the buffer; and the first
  occurrence: an occurrence with none at a lower index.
\<close>

definition occurs_at :: "byte list \<Rightarrow> byte list \<Rightarrow> nat \<Rightarrow> bool" where
  "occurs_at dat b i = (i + length b \<le> length dat \<and> take (length b) (drop i dat) = b)"

definition first_occurrence :: "byte list \<Rightarrow> byte list \<Rightarrow> nat \<Rightarrow> bool" where
  "first_occurrence dat b m = (occurs_at dat b m \<and> (\<forall>k \<in> {0..<m}. \<not> occurs_at dat b k))"


section \<open>The file system\<close>

text \<open>
  The part of the operating system the package touches: the regular files with their
  contents, and the two calls whose outcome the program cannot determine: the
  directory \<^verbatim>\<open>os.MkdirTemp("", "ikconfig")\<close> creates (or its error), and whether
  \<^verbatim>\<open>os.Create\<close> is refused at a path.
\<close>

record world =
  files :: "string \<rightharpoonup> byte list"
  mkdir_temp :: "error + string"
  create_error :: "string \<Rightarrow> error option"

text \<open>
  An \<^verbatim>\<open>io.Reader\<close>, by what it delivers: the bytes, then \<^verbatim>\<open>io.EOF\<close> (\<open>None\<close>) or
  an error.
\<close>

type_synonym reader = "byte list \<times> error option"

definition os_ReadFile :: "world \<Rightarrow> string \<Rightarrow> error + byte list" where
  "os_ReadFile w name =
     (case files w name of
        None \<Rightarrow> Inl (PathError ''open'' name)
      | Some dat \<Rightarrow> Inr dat)"

definition os_Open :: "world \<Rightarrow> string \<Rightarrow> error + reader" where
  "os_Open w name =
     (case files w name of
        None \<Rightarrow> Inl (PathError ''open'' name)
      | Some dat \<Rightarrow> Inr (dat, None))"

definition os_Stat :: "world \<Rightarrow> string \<Rightarrow> error option" where
  "os_Stat w name =
     (case files w name of
        None \<Rightarrow> Some (PathError ''stat'' name)
      | Some dat \<Rightarrow> None)"

definition os_MkdirTemp :: "world \<Rightarrow> error + string" where
  "os_MkdirTemp w = mkdir_temp w"

text \<open>\<^verbatim>\<open>os.Create\<close> creates the file or truncates the one that is there.\<close>

definition os_Create :: "world \<Rightarrow> string \<Rightarrow> world \<times> error option" where
  "os_Create w name =
     (case create_error w name of
        Some err \<Rightarrow> (w, Some err)
      | None \<Rightarrow> (w\<lparr>files := (files w)(name \<mapsto> [])\<rparr>, None))"

text \<open>
  \<^verbatim>\<open>os.Link\<close> is \<^verbatim>\<open>link(2)\<close>: it fails when the old name is missing and when the
  new name exists. No later step writes to either name, so the new link is modelled
  by a copy of the contents.
\<close>

definition os_Link :: "world \<Rightarrow> string \<Rightarrow> string \<Rightarrow> world \<times> error option" where
  "os_Link w oldname newname =
     (case files w oldname of
        None \<Rightarrow> (w, Some (LinkError oldname newname))
      | Some dat \<Rightarrow>
          (case files w newname of
             Some present \<Rightarrow> (w, Some (LinkError oldname newname))
           | None \<Rightarrow> (w\<lparr>files := (files w)(newname \<mapsto> dat)\<rparr>, None)))"

text \<open>
  \<^verbatim>\<open>io.Copy(dst, src)\<close> into a file opened for writing: what the reader delivers is
  written behind what the handle wrote before, and the reader's error is the result.
\<close>

definition io_Copy :: "world \<Rightarrow> string \<Rightarrow> reader \<Rightarrow> world \<times> error option" where
  "io_Copy w name src =
     (w\<lparr>files := (files w)(name \<mapsto>
          (case files w name of None \<Rightarrow> [] | Some old \<Rightarrow> old) @ fst src)\<rparr>,
      snd src)"

text \<open>\<^verbatim>\<open>SearchBytes\<close>: \<^verbatim>\<open>os.ReadFile\<close>, then the loops over what was read.\<close>

definition SearchBytes :: "world \<Rightarrow> string \<Rightarrow> byte list \<Rightarrow> panic + (nat \<times> error option)" where
  "SearchBytes w name b =
     (case os_ReadFile w name of
        Inl err \<Rightarrow> Inr (0, Some (Errorf ''error reading file: %w'' [ArgError err]))
      | Inr dat \<Rightarrow> search dat b)"

section \<open>The configuration map\<close>

type_synonym KernelConfigMap = "string \<rightharpoonup> string"

text \<open>
  \<^verbatim>\<open>Get\<close> has a pointer receiver, so the map it leaves behind is part of the result:
  the map, the value, the error.
\<close>

definition Get :: "KernelConfigMap \<Rightarrow> string \<Rightarrow> KernelConfigMap \<times> string \<times> error option" where
  "Get k key =
     (case k key of
        None \<Rightarrow> (k, [], Some (Errorf ''key %q not found'' [ArgString key]))
      | Some val \<Rightarrow> (k, val, None))"

section \<open>Compression types\<close>

text \<open>
  \<^verbatim>\<open>type KernelCompressionType int\<close> with its constants numbered by \<^verbatim>\<open>iota\<close>. Any
  other integer is a value of the type too.
\<close>

type_synonym KernelCompressionType = int

definition KERNEL_COMPRESSION_TYPE_GZIP :: KernelCompressionType where
  "KERNEL_COMPRESSION_TYPE_GZIP = 0"

definition KERNEL_COMPRESSION_TYPE_BZIP2 :: KernelCompressionType where
  "KERNEL_COMPRESSION_TYPE_BZIP2 = 1"

definition KERNEL_COMPRESSION_TYPE_LZMA :: KernelCompressionType where
  "KERNEL_COMPRESSION_TYPE_LZMA = 2"

definition KERNEL_COMPRESSION_TYPE_XZ :: KernelCompressionType where
  "KERNEL_COMPRESSION_TYPE_XZ = 3"

definition KERNEL_COMPRESSION_TYPE_LZO :: KernelCompressionType where
  "KERNEL_COMPRESSION_TYPE_LZO = 4"

definition KERNEL_COMPRESSION_TYPE_LZ4 :: KernelCompressionType where
  "KERNEL_COMPRESSION_TYPE_LZ4 = 5"

definition KERNEL_COMPRESSION_TYPE_ZSTD :: KernelCompressionType where
  "KERNEL_COMPRESSION_TYPE_ZSTD = 6"

definition KERNEL_COMPRESSION_TYPE_NONE :: KernelCompressionType where
  "KERNEL_COMPRESSION_TYPE_NONE = 7"

definition KERNEL_COMPRESSION_TYPE_UNKNOWN :: KernelCompressionType where
  "KERNEL_COMPRESSION_TYPE_UNKNOWN = 8"

text \<open>
  The array literal of \<^verbatim>\<open>Magic\<close>, its three entries in the order of the source, where
  the comments name them GZIP, XZ and bunzip2.
\<close>

definition magic_table :: "byte list list" where
  "magic_table =
     [[0x1f, 0x8b],
      [0x5c, 0x33, 0x37, 0x35, 0x37, 0x7a, 0x58, 0x59, 0x00],
      [0x42, 0x5a, 0x68]]"

text \<open>\<^verbatim>\<open>Magic\<close> indexes the array by the receiver; Go panics outside the array.\<close>

definition Magic :: "KernelCompressionType \<Rightarrow> panic + byte list" where
  "Magic k =
     (if 0 \<le> k \<and> k < int (length magic_table) then Inr (magic_table ! nat k)
      else Inl (IndexOutOfRange k (length magic_table)))"

text \<open>\<^verbatim>\<open>KERNEL_CONFIG_MAGIC\<close>: the five bytes of \<^verbatim>\<open>IKCFG\<close>.\<close>

definition KERNEL_CONFIG_MAGIC :: "byte list" where
  "KERNEL_CONFIG_MAGIC = [0x49, 0x4b, 0x43, 0x46, 0x47]"

section \<open>The kernel image and its decompression\<close>

record KernelConfig =
  path :: string
  pathDecompressed :: string
  compressionType :: KernelCompressionType

definition NewKernelConfig ::
  "world \<Rightarrow> string \<Rightarrow> KernelCompressionType \<Rightarrow> error + KernelConfig" where
  "NewKernelConfig w p compression =
     (case os_Stat w p of
        Some err \<Rightarrow> Inl (Errorf ''file %q not found: %w'' [ArgString p, ArgError err])
      | None \<Rightarrow>
          Inr \<lparr>path = p, pathDecompressed = [], compressionType = compression\<rparr>)"

definition findKernelConfigMagic :: "world \<Rightarrow> KernelConfig \<Rightarrow> panic + (nat \<times> error option)" where
  "findKernelConfigMagic w k = SearchBytes w (path k) KERNEL_CONFIG_MAGIC"

definition findCompressionMagic :: "world \<Rightarrow> KernelConfig \<Rightarrow> panic + (nat \<times> error option)" where
  "findCompressionMagic w k =
     (case Magic (compressionType k) of
        Inl p \<Rightarrow> Inl p
      | Inr m \<Rightarrow> SearchBytes w (path k) m)"

text \<open>
  The decoders are the imported packages \<^verbatim>\<open>compress/gzip\<close>, \<^verbatim>\<open>compress/bzip2\<close>,
  \<^verbatim>\<open>ulikunitz/xz\<close> and \<^verbatim>\<open>klauspost/compress/zstd\<close>, which are not part of this
  repository: they are parameters of the model. Each constructor takes the reader of
  the compressed bytes and gives the reader of the decoded bytes, or (all but bzip2)
  an error.
\<close>

record codecs =
  gzip_NewReader :: "reader \<Rightarrow> error + reader"
  bzip2_NewReader :: "reader \<Rightarrow> reader"
  xz_NewReader :: "reader \<Rightarrow> error + reader"
  zstd_NewReader :: "reader \<Rightarrow> error + reader"

text \<open>
  The \<^verbatim>\<open>switch k.compressionType\<close> of \<^verbatim>\<open>decompress\<close>, case by case in the order of
  the source. A Go \<^verbatim>\<open>case\<close> does not fall through: a case with no statements does
  nothing and the function goes on to \<^verbatim>\<open>return nil\<close>. The error of \<^verbatim>\<open>os.Link\<close> is
  dropped by the source.
\<close>

definition decompress_switch ::
  "codecs \<Rightarrow> world \<Rightarrow> KernelConfig \<Rightarrow> reader \<Rightarrow> world \<times> KernelConfig \<times> error option" where
  "decompress_switch c w k kernelFile =
     (if compressionType k = KERNEL_COMPRESSION_TYPE_NONE then
        (fst (os_Link w (path k) (pathDecompressed k)), k, None)
      else if compressionType k = KERNEL_COMPRESSION_TYPE_UNKNOWN then (w, k, None)
      else if compressionType k = KERNEL_COMPRESSION_TYPE_GZIP then
        (case gzip_NewReader c kernelFile of
           Inl err \<Rightarrow> (w, k, Some (Errorf ''error creating gzip reader: %w'' [ArgError err]))
         | Inr gzipReader \<Rightarrow>
             (case io_Copy w (pathDecompressed k) gzipReader of
                (w', Some err) \<Rightarrow>
                  (w', k, Some (Errorf ''error decompressing gzip: %w'' [ArgError err]))
              | (w', None) \<Rightarrow> (w', k, None)))
      else if compressionType k = KERNEL_COMPRESSION_TYPE_BZIP2 then
        (case io_Copy w (pathDecompressed k) (bzip2_NewReader c kernelFile) of
           (w', Some err) \<Rightarrow>
             (w', k, Some (Errorf ''error decompressing bzip2: %w'' [ArgError err]))
         | (w', None) \<Rightarrow> (w', k, None))
      else if compressionType k = KERNEL_COMPRESSION_TYPE_LZMA then (w, k, None)
      else if compressionType k = KERNEL_COMPRESSION_TYPE_XZ then
        (case snd kernelFile of
           Some err \<Rightarrow>
             (w, k, Some (Errorf ''error copying kernel file to buffer: %w'' [ArgError err]))
         | None \<Rightarrow>
             (case xz_NewReader c (fst kernelFile, None) of
                Inl err \<Rightarrow>
                  (w, k, Some (Errorf ''error creating xz reader: %w'' [ArgError err]))
              | Inr xzReader \<Rightarrow>
                  (case io_Copy w (pathDecompressed k) xzReader of
                     (w', Some err) \<Rightarrow>
                       (w', k, Some (Errorf ''error decompressing xz: %w'' [ArgError err]))
                   | (w', None) \<Rightarrow> (w', k, None))))
      else if compressionType k = KERNEL_COMPRESSION_TYPE_ZSTD then
        (case zstd_NewReader c kernelFile of
           Inl err \<Rightarrow> (w, k, Some (Errorf ''error creating zstd reader: %w'' [ArgError err]))
         | Inr zstdReader \<Rightarrow>
             (case io_Copy w (pathDecompressed k) zstdReader of
                (w', Some err) \<Rightarrow>
                  (w', k, Some (Errorf ''error decompressing zstd: %w'' [ArgError err]))
              | (w', None) \<Rightarrow> (w', k, None)))
      else if compressionType k = KERNEL_COMPRESSION_TYPE_LZO then (w, k, None)
      else if compressionType k = KERNEL_COMPRESSION_TYPE_LZ4 then (w, k, None)
      else
        (w, k, Some (Errorf ''unknown/unsupported compression type: %v''
                       [ArgInt (compressionType k)])))"

text \<open>
  \<^verbatim>\<open>decompress\<close>: the temporary directory, the destination file, the source file,
  the switch. The second \<^verbatim>\<open>if err != nil\<close> after \<^verbatim>\<open>os.Open\<close> tests the error the
  first one has already excluded, so it has no branch here. The receiver is a pointer:
  the updated struct is part of the result, with the world and the error.
\<close>

definition decompress ::
  "codecs \<Rightarrow> world \<Rightarrow> KernelConfig \<Rightarrow> world \<times> KernelConfig \<times> error option" where
  "decompress c w k =
     (case os_MkdirTemp w of
        Inl err \<Rightarrow>
          (w, k, Some (Errorf ''error creating temporary directory: %w'' [ArgError err]))
      | Inr tmpdir \<Rightarrow>
          (case os_Create w (tmpdir @ ''/vmlinux'') of
             (w1, Some err) \<Rightarrow>
               (w1, k\<lparr>pathDecompressed := tmpdir @ ''/vmlinux''\<rparr>,
                Some (Errorf ''error opening decompressed file: %w'' [ArgError err]))
           | (w1, None) \<Rightarrow>
               (case os_Open w1 (path k) of
                  Inl err \<Rightarrow>
                    (w1, k\<lparr>pathDecompressed := tmpdir @ ''/vmlinux''\<rparr>,
                     Some (Errorf ''error opening kernel file: %w'' [ArgError err]))
                | Inr kernelFile \<Rightarrow>
                    decompress_switch c w1 (k\<lparr>pathDecompressed := tmpdir @ ''/vmlinux''\<rparr>)
                      kernelFile)))"

text \<open>
  \<^verbatim>\<open>ParseKernelConfig\<close>. The slice expression \<^verbatim>\<open>configDecompressed[magicOffset+8:]\<close>
  panics when the bound exceeds the length. \<^verbatim>\<open>os.Open("config")\<close> opens the file for
  reading only, so the final \<^verbatim>\<open>io.Copy(out, gzipReader)\<close>, whose result the source
  drops, writes nothing: the world stays as it is. The function then returns the
  literal \<^verbatim>\<open>&KernelConfigMap{}\<close>.
\<close>

definition ParseKernelConfig ::
  "codecs \<Rightarrow> world \<Rightarrow> KernelConfig \<Rightarrow>
   panic + (world \<times> KernelConfig \<times> (error + KernelConfigMap))" where
  "ParseKernelConfig c w k =
     (case decompress c w k of
        (w1, k1, Some err) \<Rightarrow>
          Inr (w1, k1, Inl (Errorf ''error decompressing kernel config: %w'' [ArgError err]))
      | (w1, k1, None) \<Rightarrow>
          (case findKernelConfigMagic w1 k1 of
             Inl p \<Rightarrow> Inl p
           | Inr (magicOffset, Some err) \<Rightarrow>
               Inr (w1, k1,
                 Inl (Errorf ''error finding magic string in kernel config: %w'' [ArgError err]))
           | Inr (magicOffset, None) \<Rightarrow>
               (case os_ReadFile w1 (pathDecompressed k1) of
                  Inl err \<Rightarrow>
                    Inr (w1, k1,
                      Inl (Errorf ''error reading kernel config: %w'' [ArgError err]))
                | Inr configDecompressed \<Rightarrow>
                    if length configDecompressed < magicOffset + 8 then
                      Inl (SliceBoundsOutOfRange (magicOffset + 8) (length configDecompressed))
                    else
                      (case os_Open w1 ''config'' of
                         Inl err \<Rightarrow>
                           Inr (w1, k1,
                             Inl (Errorf ''error opening config file: %w'' [ArgError err]))
                       | Inr out \<Rightarrow>
                           (case gzip_NewReader c
                                   (drop (magicOffset + 8) configDecompressed, None) of
                              Inl err \<Rightarrow>
                                Inr (w1, k1,
                                  Inl (Errorf ''error creating gzip reader: %w'' [ArgError err]))
                            | Inr gzipReader \<Rightarrow> Inr (w1, k1, Inr Map.empty))))))"

text \<open>
  A stand-in for the decoders, to run the model on concrete files: a stream is the
  three bytes \<^verbatim>\<open>1f 8b 08\<close> (the gzip magic and method) followed by the stored
  payload, and decoding returns the payload; the bzip2 stand-in complements every
  byte. Nothing below concludes anything about the real decoders from it: the
  theorems hold for every value of the parameter.
\<close>

definition stored_NewReader :: "reader \<Rightarrow> error + reader" where
  "stored_NewReader r =
     (if take 3 (fst r) = [0x1f, 0x8b, 0x08] then Inr (drop 3 (fst r), snd r)
      else Inl (External ''gzip: invalid header''))"

definition stored_codecs :: codecs where
  "stored_codecs =
     \<lparr>gzip_NewReader = stored_NewReader,
      bzip2_NewReader = (\<lambda>r. (map (\<lambda>x. 255 - x) (fst r), snd r)),
      xz_NewReader = stored_NewReader,
      zstd_NewReader = stored_NewReader\<rparr>"

section \<open>Concrete files\<close>


text \<open>
  Files for running \<^verbatim>\<open>decompress\<close> and \<^verbatim>\<open>ParseKernelConfig\<close> with the stand-in
  decoders. \<open>config_text\<close> is the line \<^verbatim>\<open>CONFIG_A=y\<close> with its newline.
  \<open>stored_image\<close> is a stored stream whose payload holds \<^verbatim>\<open>IKCFG_ST\<close>, three
  filler bytes and the stored stream of \<open>config_text\<close>. \<open>plain_image\<close> is
  \<^verbatim>\<open>IKCFG_ST\<close> followed by the stored stream of \<open>config_text\<close>; the file of
  \<open>complemented_world\<close> is its encoding for the bzip2 stand-in. \<open>image t\<close> is the
  struct \<^verbatim>\<open>NewKernelConfig("vmlinuz", t)\<close> returns.
\<close>

definition config_text :: "byte list" where
  "config_text = [0x43, 0x4f, 0x4e, 0x46, 0x49, 0x47, 0x5f, 0x41, 0x3d, 0x79, 0x0a]"

definition stored_image :: "byte list" where
  "stored_image =
     [0x1f, 0x8b, 0x08] @
     [0x49, 0x4b, 0x43, 0x46, 0x47, 0x5f, 0x53, 0x54] @ [0x00, 0x00, 0x00] @
     [0x1f, 0x8b, 0x08] @ config_text"

definition stored_world :: world where
  "stored_world =
     \<lparr>files = [''vmlinuz'' \<mapsto> stored_image, ''config'' \<mapsto> []],
      mkdir_temp = Inr ''/tmp/ikconfig1'',
      create_error = (\<lambda>p. None)\<rparr>"

definition plain_image :: "byte list" where
  "plain_image =
     [0x49, 0x4b, 0x43, 0x46, 0x47, 0x5f, 0x53, 0x54] @ [0x1f, 0x8b, 0x08] @ config_text"

definition complemented_world :: world where
  "complemented_world =
     \<lparr>files = [''vmlinuz'' \<mapsto> map (\<lambda>x. 255 - x) plain_image, ''config'' \<mapsto> []],
      mkdir_temp = Inr ''/tmp/ikconfig1'',
      create_error = (\<lambda>p. None)\<rparr>"

definition image :: "KernelCompressionType \<Rightarrow> KernelConfig" where
  "image t = \<lparr>path = ''vmlinuz'', pathDecompressed = [], compressionType = t\<rparr>"

section \<open>Properties of the byte search\<close>

lemma inner_loop_in_range:
  "i + length b \<le> length dat \<Longrightarrow>
   inner_loop dat b i j = Inr (\<forall>k. j \<le> k \<and> k < length b \<longrightarrow> dat ! (i + k) = b ! k)"
proof (induction dat b i j rule: inner_loop.induct)
  case (1 dat b i j)
  show ?case
  proof (cases "j < length b")
    case False
    then show ?thesis by (auto simp: inner_loop.simps [of dat b i j])
  next
    case True
    with "1.prems" have inb: "i + j < length dat" by simp
    show ?thesis
    proof (cases "dat ! (i + j) = b ! j")
      case False
      with True inb show ?thesis
        by (auto simp: inner_loop.simps [of dat b i j])
    next
      case eq: True
      have "(\<forall>k. j \<le> k \<and> k < length b \<longrightarrow> dat ! (i + k) = b ! k) =
            (\<forall>k. j + 1 \<le> k \<and> k < length b \<longrightarrow> dat ! (i + k) = b ! k)"
      proof
        assume "\<forall>k. j \<le> k \<and> k < length b \<longrightarrow> dat ! (i + k) = b ! k"
        then show "\<forall>k. j + 1 \<le> k \<and> k < length b \<longrightarrow> dat ! (i + k) = b ! k" by simp
      next
        assume a: "\<forall>k. j + 1 \<le> k \<and> k < length b \<longrightarrow> dat ! (i + k) = b ! k"
        show "\<forall>k. j \<le> k \<and> k < length b \<longrightarrow> dat ! (i + k) = b ! k"
        proof (intro allI impI)
          fix k assume k: "j \<le> k \<and> k < length b"
          show "dat ! (i + k) = b ! k"
          proof (cases "k = j")
            case True with eq show ?thesis by simp
          next
            case False
            with k have "j + 1 \<le> k \<and> k < length b" by simp
            with a show ?thesis by blast
          qed
        qed
      qed
      moreover have "inner_loop dat b i j = inner_loop dat b i (j + 1)"
        using True inb eq by (simp add: inner_loop.simps [of dat b i j])
      moreover have "inner_loop dat b i (j + 1) =
           Inr (\<forall>k. j + 1 \<le> k \<and> k < length b \<longrightarrow> dat ! (i + k) = b ! k)"
        using "1.IH" True inb eq "1.prems" by simp
      ultimately show ?thesis by simp
    qed
  qed
qed

lemma occurs_at_nth:
  "occurs_at dat b i =
     (i + length b \<le> length dat \<and> (\<forall>k<length b. dat ! (i + k) = b ! k))"
proof (cases "i + length b \<le> length dat")
  case True
  then have "(take (length b) (drop i dat) = b) = (\<forall>k<length b. dat ! (i + k) = b ! k)"
    by (auto simp: list_eq_iff_nth_eq)
  with True show ?thesis by (simp add: occurs_at_def)
next
  case False
  then show ?thesis by (simp add: occurs_at_def)
qed

lemma inner_loop_True:
  "inner_loop dat b i j = Inr True \<Longrightarrow>
   (\<forall>k. j \<le> k \<and> k < length b \<longrightarrow> i + k < length dat \<and> dat ! (i + k) = b ! k)"
proof (induction dat b i j rule: inner_loop.induct)
  case (1 dat b i j)
  show ?case
  proof (cases "j < length b")
    case False
    then show ?thesis by auto
  next
    case True
    from "1.prems" True have inb: "i + j < length dat"
      by (simp add: inner_loop.simps [of dat b i j] split: if_splits)
    from "1.prems" True inb have eq: "dat ! (i + j) = b ! j"
      by (simp add: inner_loop.simps [of dat b i j] split: if_splits)
    from "1.prems" True inb eq have rec: "inner_loop dat b i (j + 1) = Inr True"
      by (simp add: inner_loop.simps [of dat b i j])
    have IH: "\<forall>k. j + 1 \<le> k \<and> k < length b \<longrightarrow> i + k < length dat \<and> dat ! (i + k) = b ! k"
      using "1.IH" True inb eq rec by simp
    show ?thesis
    proof (intro allI impI)
      fix k assume k: "j \<le> k \<and> k < length b"
      show "i + k < length dat \<and> dat ! (i + k) = b ! k"
      proof (cases "k = j")
        case True
        with inb eq show ?thesis by simp
      next
        case False
        with k have "j + 1 \<le> k \<and> k < length b" by simp
        with IH show ?thesis by blast
      qed
    qed
  qed
qed

lemma candidate_accepted:
  assumes "b \<noteq> []" and "i < length dat"
  shows "(dat ! i = b ! 0 \<and> inner_loop dat b i 1 = Inr True) = occurs_at dat b i"
proof
  assume a: "dat ! i = b ! 0 \<and> inner_loop dat b i 1 = Inr True"
  then have rest: "\<forall>k. 1 \<le> k \<and> k < length b \<longrightarrow> i + k < length dat \<and> dat ! (i + k) = b ! k"
    using inner_loop_True by blast
  have all: "\<forall>k<length b. i + k < length dat \<and> dat ! (i + k) = b ! k"
  proof (intro allI impI)
    fix k assume k: "k < length b"
    show "i + k < length dat \<and> dat ! (i + k) = b ! k"
    proof (cases "k = 0")
      case True
      with a assms show ?thesis by simp
    next
      case False
      with k have "1 \<le> k \<and> k < length b" by simp
      with rest show ?thesis by blast
    qed
  qed
  from assms have "length b - 1 < length b" by (cases b) simp_all
  with all have "i + (length b - 1) < length dat" by blast
  with assms have "i + length b \<le> length dat" by (cases b) simp_all
  with all show "occurs_at dat b i" by (simp add: occurs_at_nth)
next
  assume o: "occurs_at dat b i"
  then have len: "i + length b \<le> length dat"
    and eqs: "\<forall>k<length b. dat ! (i + k) = b ! k"
    by (simp_all add: occurs_at_nth)
  from assms eqs have "dat ! i = b ! 0" by (cases b) auto
  moreover have "inner_loop dat b i 1 = Inr True"
    using inner_loop_in_range [OF len, of 1] eqs by simp
  ultimately show "dat ! i = b ! 0 \<and> inner_loop dat b i 1 = Inr True" by simp
qed

lemma outer_loop_step:
  "i < length dat \<Longrightarrow> b \<noteq> [] \<Longrightarrow>
   outer_loop dat b i =
     (if dat ! i = b ! 0 then
        (case inner_loop dat b i 1 of
           Inl p \<Rightarrow> Inl p
         | Inr found \<Rightarrow> if found then Inr (i, None) else outer_loop dat b (i + 1))
      else outer_loop dat b (i + 1))"
  by (subst outer_loop.simps) simp

lemma outer_loop_finds:
  "b \<noteq> [] \<Longrightarrow> occurs_at dat b m \<Longrightarrow> i \<le> m \<Longrightarrow>
   (\<forall>k. i \<le> k \<and> k < m \<longrightarrow> \<not> occurs_at dat b k) \<Longrightarrow>
   outer_loop dat b i = Inr (m, None)"
proof (induction dat b i rule: outer_loop.induct)
  case (1 dat b i)
  from "1.prems" have mlen: "m + length b \<le> length dat" by (simp add: occurs_at_def)
  with "1.prems" have ilt: "i < length dat" by (cases b) simp_all
  from mlen "1.prems" have ilen: "i + length b \<le> length dat" by simp
  show ?case
  proof (cases "occurs_at dat b i")
    case True
    with "1.prems" have "i = m" by (metis le_neq_implies_less order_refl)
    moreover from True have "dat ! i = b ! 0 \<and> inner_loop dat b i 1 = Inr True"
      using candidate_accepted [OF "1.prems"(1) ilt] by simp
    ultimately show ?thesis
      using outer_loop_step [OF ilt "1.prems"(1)] by simp
  next
    case False
    with "1.prems" have lt: "i + 1 \<le> m" by (metis Suc_eq_plus1 Suc_leI le_neq_implies_less)
    have none: "\<forall>k. i + 1 \<le> k \<and> k < m \<longrightarrow> \<not> occurs_at dat b k"
      using "1.prems"(4) by simp
    show ?thesis
    proof (cases "dat ! i = b ! 0")
      case neq: False
      then have "outer_loop dat b i = outer_loop dat b (i + 1)"
        using outer_loop_step [OF ilt "1.prems"(1)] by simp
      moreover have "outer_loop dat b (i + 1) = Inr (m, None)"
        using "1.IH"(2) [OF ilt "1.prems"(1) neq "1.prems"(1) "1.prems"(2) lt none] .
      ultimately show ?thesis by simp
    next
      case eq: True
      have "inner_loop dat b i 1 = Inr (\<forall>k. 1 \<le> k \<and> k < length b \<longrightarrow> dat ! (i + k) = b ! k)"
        using inner_loop_in_range [OF ilen] .
      moreover have "inner_loop dat b i 1 \<noteq> Inr True"
        using False eq candidate_accepted [OF "1.prems"(1) ilt] by simp
      ultimately have inner: "inner_loop dat b i 1 = Inr False" by auto
      then have "outer_loop dat b i = outer_loop dat b (i + 1)"
        using outer_loop_step [OF ilt "1.prems"(1)] eq by simp
      moreover have "outer_loop dat b (i + 1) = Inr (m, None)"
        using "1.IH"(1) [OF ilt "1.prems"(1) eq inner _ "1.prems"(1) "1.prems"(2) lt none] by simp
      ultimately show ?thesis by simp
    qed
  qed
qed

lemma outer_loop_sound:
  "b \<noteq> [] \<Longrightarrow> outer_loop dat b i = Inr (n, r) \<Longrightarrow>
   (case r of
      None \<Rightarrow> occurs_at dat b n \<and> i \<le> n \<and> (\<forall>k. i \<le> k \<and> k < n \<longrightarrow> \<not> occurs_at dat b k)
    | Some e \<Rightarrow> n = 0 \<and> e = MagicNotFoundErr ''magic string not found'' b \<and>
        (\<forall>k. i \<le> k \<longrightarrow> \<not> occurs_at dat b k))"
proof (induction dat b i rule: outer_loop.induct)
  case (1 dat b i)
  note ne = "1.prems"(1)
  show ?case
  proof (cases "i < length dat")
    case False
    then have "outer_loop dat b i = Inr (0, Some (MagicNotFoundErr ''magic string not found'' b))"
      by (subst outer_loop.simps) simp
    with "1.prems" have r: "n = 0" "r = Some (MagicNotFoundErr ''magic string not found'' b)"
      by simp_all
    have "\<forall>k. i \<le> k \<longrightarrow> \<not> occurs_at dat b k"
    proof (intro allI impI)
      fix k assume "i \<le> k"
      with False ne have "\<not> k + length b \<le> length dat" by (cases b) simp_all
      then show "\<not> occurs_at dat b k" by (simp add: occurs_at_def)
    qed
    with r show ?thesis by simp
  next
    case ilt: True
    note step = outer_loop_step [OF ilt ne]
    note acc = candidate_accepted [OF ne ilt]
    show ?thesis
    proof (cases "occurs_at dat b i")
      case True
      with acc have "dat ! i = b ! 0 \<and> inner_loop dat b i 1 = Inr True" by simp
      with step have "outer_loop dat b i = Inr (i, None)" by simp
      with "1.prems" have "n = i" "r = None" by simp_all
      with True show ?thesis by auto
    next
      case nocc: False
      have rec: "outer_loop dat b (i + 1) = Inr (n, r)"
      proof (cases "dat ! i = b ! 0")
        case False
        with step "1.prems" show ?thesis by simp
      next
        case True
        with nocc acc have "inner_loop dat b i 1 \<noteq> Inr True" by simp
        with step True "1.prems"(2) show ?thesis
          by (cases "inner_loop dat b i 1") (auto split: if_splits)
      qed
      have IH: "(case r of
          None \<Rightarrow> occurs_at dat b n \<and> i + 1 \<le> n \<and>
            (\<forall>k. i + 1 \<le> k \<and> k < n \<longrightarrow> \<not> occurs_at dat b k)
        | Some e \<Rightarrow> n = 0 \<and> e = MagicNotFoundErr ''magic string not found'' b \<and>
            (\<forall>k. i + 1 \<le> k \<longrightarrow> \<not> occurs_at dat b k))"
      proof (cases "dat ! i = b ! 0")
        case False
        show ?thesis using "1.IH"(2) [OF ilt ne False ne rec] .
      next
        case True
        with nocc acc have "inner_loop dat b i 1 \<noteq> Inr True" by simp
        moreover from step True "1.prems"(2) have "\<exists>f. inner_loop dat b i 1 = Inr f"
          by (cases "inner_loop dat b i 1") auto
        ultimately have inner: "inner_loop dat b i 1 = Inr False" by auto
        show ?thesis using "1.IH"(1) [OF ilt ne True inner _ ne rec] by simp
      qed
      have ext: "\<And>k. i \<le> k \<Longrightarrow> k \<noteq> i \<Longrightarrow> i + 1 \<le> k" by simp
      show ?thesis
      proof (cases r)
        case None
        with IH have a: "occurs_at dat b n" "i + 1 \<le> n"
          "\<forall>k. i + 1 \<le> k \<and> k < n \<longrightarrow> \<not> occurs_at dat b k" by simp_all
        have "\<forall>k. i \<le> k \<and> k < n \<longrightarrow> \<not> occurs_at dat b k"
        proof (intro allI impI)
          fix k assume k: "i \<le> k \<and> k < n"
          show "\<not> occurs_at dat b k"
          proof (cases "k = i")
            case True with nocc show ?thesis by simp
          next
            case False
            with k ext have "i + 1 \<le> k \<and> k < n" by simp
            with a(3) show ?thesis by blast
          qed
        qed
        with a None show ?thesis by simp
      next
        case (Some e)
        with IH have a: "n = 0" "e = MagicNotFoundErr ''magic string not found'' b"
          "\<forall>k. i + 1 \<le> k \<longrightarrow> \<not> occurs_at dat b k" by simp_all
        have "\<forall>k. i \<le> k \<longrightarrow> \<not> occurs_at dat b k"
        proof (intro allI impI)
          fix k assume k: "i \<le> k"
          show "\<not> occurs_at dat b k"
          proof (cases "k = i")
            case True with nocc show ?thesis by simp
          next
            case False
            with k ext have "i + 1 \<le> k" by simp
            with a(3) show ?thesis by blast
          qed
        qed
        with a Some show ?thesis by simp
      qed
    qed
  qed
qed

lemma search_finds_first:
  assumes "b \<noteq> []" and "occurs_at dat b m" and "\<forall>k<m. \<not> occurs_at dat b k"
  shows "search dat b = Inr (m, None)"
  unfolding search_def using outer_loop_finds [OF assms(1) assms(2), of 0] assms(3) by simp

lemma search_found_first:
  assumes "b \<noteq> []" and "search dat b = Inr (n, None)"
  shows "occurs_at dat b n \<and> (\<forall>k<n. \<not> occurs_at dat b k)"
  using outer_loop_sound [OF assms(1), of dat 0 n None] assms(2) by (simp add: search_def)







lemma occurs_at_prefix:
  assumes "prefix P1 P2" and "occurs_at B P2 i"
  shows "occurs_at B P1 i"
proof -
  from assms(1) obtain s where P2: "P2 = P1 @ s" by (auto simp: prefix_def)
  from assms(2) have len: "i + length P2 \<le> length B"
    and tk: "take (length P2) (drop i B) = P2" by (simp_all add: occurs_at_def)
  have "take (length P1) (take (length P2) (drop i B)) = take (length P1) P2"
    using tk by simp
  then have "take (length P1) (drop i B) = P1"
    using P2 by (simp add: min_def)
  moreover from len P2 have "i + length P1 \<le> length B" by simp
  ultimately show ?thesis by (simp add: occurs_at_def)
qed

text \<open>
  Claim C8 (monotonic length). For a non-empty pattern \<open>P1\<close> that is a prefix of \<open>P2\<close>:
  when both searches of a buffer succeed, the offset found for \<open>P1\<close> is at most the one
  found for \<open>P2\<close>; when both patterns first occur at the same index, both searches
  return that index; and in a buffer of at least two zero bytes the searches for
  \<^verbatim>\<open>{0x00}\<close> and \<^verbatim>\<open>{0x00, 0x00}\<close> both return offset 0.
\<close>

theorem search_monotonic_length:
  assumes "P1 \<noteq> []" and "prefix P1 P2"
  shows "(\<forall>n1 n2. search B P1 = Inr (n1, None) \<and> search B P2 = Inr (n2, None) \<longrightarrow> n1 \<le> n2)
       \<and> (\<forall>m. first_occurrence B P1 m \<and> first_occurrence B P2 m \<longrightarrow>
              search B P1 = Inr (m, None) \<and> search B P2 = Inr (m, None))
       \<and> (\<forall>n. 2 \<le> n \<longrightarrow>
              search (replicate n 0) [0] = Inr (0, None) \<and>
              search (replicate n 0) [0, 0] = Inr (0, None))"
proof (intro conjI allI impI)
  fix n1 n2
  assume both: "search B P1 = Inr (n1, None) \<and> search B P2 = Inr (n2, None)"
  from assms have ne2: "P2 \<noteq> []" by auto
  from both search_found_first [OF assms(1)] have low: "\<forall>k<n1. \<not> occurs_at B P1 k" by blast
  from both search_found_first [OF ne2] have "occurs_at B P2 n2" by blast
  with assms(2) have "occurs_at B P1 n2" by (rule occurs_at_prefix)
  with low show "n1 \<le> n2" by (meson not_le)
next
  fix m
  assume f: "first_occurrence B P1 m \<and> first_occurrence B P2 m"
  then have "occurs_at B P1 m" "\<forall>k<m. \<not> occurs_at B P1 k"
    by (simp_all add: first_occurrence_def)
  then show "search B P1 = Inr (m, None)" using assms(1) by (rule_tac search_finds_first)
next
  fix m
  assume f: "first_occurrence B P1 m \<and> first_occurrence B P2 m"
  from assms have ne2: "P2 \<noteq> []" by auto
  from f have "occurs_at B P2 m" "\<forall>k<m. \<not> occurs_at B P2 k"
    by (simp_all add: first_occurrence_def)
  then show "search B P2 = Inr (m, None)" using ne2 by (rule_tac search_finds_first)
next
  fix n :: nat
  assume "2 \<le> n"
  then have "occurs_at (replicate n 0) [0] 0" by (simp add: occurs_at_def)
  then show "search (replicate n 0) [0] = Inr (0, None)"
    by (intro search_finds_first) simp_all
next
  fix n :: nat
  assume n: "2 \<le> n"
  then have "take 2 (replicate n (0::byte)) = [0, 0]"
    by (simp add: numeral_2_eq_2 min_def)
  with n have "occurs_at (replicate n 0) [0, 0] 0" by (simp add: occurs_at_def)
  then show "search (replicate n 0) [0, 0] = Inr (0, None)"
    by (intro search_finds_first) simp_all
qed

theorem search_monotonic_length_witness:
  "[0::byte] \<noteq> [] \<and> prefix [0::byte] [0, 0] \<and>
   first_occurrence [0, 0, 0] [0] 0 \<and> first_occurrence [0, 0, 0] [0, 0] 0 \<and>
   search [0, 0, 0] [0] = Inr (0, None) \<and> search [0, 0, 0] [0, 0] = Inr (0, None)"
proof -
  have h1: "[0::byte] \<noteq> []" by simp
  have h2: "prefix [0::byte] [0, 0]" by simp
  have h3: "first_occurrence [0, 0, 0] [0] 0" by (simp add: first_occurrence_def occurs_at_def)
  have h4: "first_occurrence [0, 0, 0] [0, 0] 0" by (simp add: first_occurrence_def occurs_at_def)
  from search_monotonic_length [OF h1 h2, of "[0, 0, 0]"] h3 h4
  have "search [0, 0, 0] [0] = Inr (0, None) \<and> search [0, 0, 0] [0, 0] = Inr (0, None)"
    by blast
  with h1 h2 h3 h4 show ?thesis by simp
qed

text \<open>
  Claim C1 (no read beyond the buffer). The claim asks that a candidate whose pattern
  extends past the end of the buffer be rejected without a fault. On the one-byte
  buffer \<^verbatim>\<open>{0x00}\<close> and the pattern \<^verbatim>\<open>{0x00, 0x01}\<close> the candidate at index 0
  matches the first byte, the inner loop indexes \<^verbatim>\<open>dat[1]\<close>, and the search ends in
  an index-out-of-range panic.
\<close>

theorem search_faults_past_buffer_end:
  "inner_loop [0x00] [0x00, 0x01] 0 1 = Inl (IndexOutOfRange 1 1) \<and>
   search [0x00] [0x00, 0x01] = Inl (IndexOutOfRange 1 1)"
  by code_simp

lemma no_occurrence_example: "\<not> occurs_at [0x01, 0x02, 0x03] [0x03, 0x04] i"
proof
  assume a: "occurs_at [0x01, 0x02, 0x03] [0x03, 0x04] i"
  then have "i + 2 \<le> 3" by (simp add: occurs_at_def)
  then have "i = 0 \<or> i = 1" by auto
  with a show False by (auto simp: occurs_at_def)
qed

text \<open>
  Claim C2 (lowest index, or not found). The pattern \<^verbatim>\<open>{0x03, 0x04}\<close> occurs nowhere
  in the buffer \<^verbatim>\<open>{0x01, 0x02, 0x03}\<close>, so the claim asks for the not-found outcome;
  the search panics at the last candidate instead. (Where the pattern does occur, the
  lowest index is returned, and \<open>search_outcome\<close> says when the panic takes the
  place of the not-found error.)
\<close>

theorem search_faults_instead_of_not_found:
  "(\<forall>i. \<not> occurs_at [0x01, 0x02, 0x03] [0x03, 0x04] i) \<and>
   search [0x01, 0x02, 0x03] [0x03, 0x04] = Inl (IndexOutOfRange 3 3)"
proof
  show "\<forall>i. \<not> occurs_at [0x01, 0x02, 0x03] [0x03, 0x04] i"
    using no_occurrence_example by blast
  show "search [0x01, 0x02, 0x03] [0x03, 0x04] = Inl (IndexOutOfRange 3 3)"
    by code_simp
qed

section \<open>Errors of the search\<close>

lemma outer_loop_error:
  assumes "outer_loop dat b i = Inr (n, Some e)"
  shows "n = 0 \<and> e = MagicNotFoundErr ''magic string not found'' b"
proof (cases "b = []")
  case True
  with assms show ?thesis
    by (simp add: outer_loop.simps [of dat "[]" i] split: if_splits)
next
  case False
  from outer_loop_sound [OF False assms] show ?thesis by simp
qed





section \<open>Properties of the configuration map\<close>

text \<open>
  Claim C10 (\<^verbatim>\<open>Get\<close>). \<^verbatim>\<open>Get\<close> returns a value with a \<^verbatim>\<open>nil\<close> error exactly when the
  value is stored under the key; it returns the error \<^verbatim>\<open>key %q not found\<close> with the
  key as argument (and any error at all) exactly when the key is absent; and the map
  is left as it was.
\<close>

theorem Get_present_or_error:
  "(\<forall>v. (Get m key = (m, v, None)) = (m key = Some v))
   \<and> ((\<exists>v. Get m key = (m, v, Some (Errorf ''key %q not found'' [ArgString key]))) =
        (m key = None))
   \<and> ((\<exists>v e. Get m key = (m, v, Some e)) = (m key = None))
   \<and> fst (Get m key) = m"
  by (cases "m key") (auto simp: Get_def)

section \<open>The magic table\<close>

text \<open>
  Claim C6 (\<^verbatim>\<open>Magic\<close> on the supported types). The array has three entries and is
  indexed by the type's number: \<^verbatim>\<open>Magic\<close> panics for XZ (3) and ZSTD (6), returns for
  BZIP2 (1) the entry the source comments as XZ, and the entry commented as bunzip2
  is returned for LZMA (2). Only GZIP (0) gets its own signature.
\<close>

theorem Magic_table_misaligned:
  "Magic KERNEL_COMPRESSION_TYPE_XZ = Inl (IndexOutOfRange 3 3) \<and>
   Magic KERNEL_COMPRESSION_TYPE_ZSTD = Inl (IndexOutOfRange 6 3) \<and>
   Magic KERNEL_COMPRESSION_TYPE_BZIP2 =
     Inr [0x5c, 0x33, 0x37, 0x35, 0x37, 0x7a, 0x58, 0x59, 0x00] \<and>
   Magic KERNEL_COMPRESSION_TYPE_LZMA = Inr [0x42, 0x5a, 0x68] \<and>
   Magic KERNEL_COMPRESSION_TYPE_GZIP = Inr [0x1f, 0x8b]"
  by (simp add: Magic_def magic_table_def KERNEL_COMPRESSION_TYPE_XZ_def
      KERNEL_COMPRESSION_TYPE_ZSTD_def KERNEL_COMPRESSION_TYPE_BZIP2_def
      KERNEL_COMPRESSION_TYPE_LZMA_def KERNEL_COMPRESSION_TYPE_GZIP_def)

section \<open>Decompression and extraction\<close>

lemmas compression_type_defs =
  KERNEL_COMPRESSION_TYPE_GZIP_def KERNEL_COMPRESSION_TYPE_BZIP2_def
  KERNEL_COMPRESSION_TYPE_LZMA_def KERNEL_COMPRESSION_TYPE_XZ_def
  KERNEL_COMPRESSION_TYPE_LZO_def KERNEL_COMPRESSION_TYPE_LZ4_def
  KERNEL_COMPRESSION_TYPE_ZSTD_def KERNEL_COMPRESSION_TYPE_NONE_def
  KERNEL_COMPRESSION_TYPE_UNKNOWN_def

lemma decompress_reaches_switch:
  assumes "mkdir_temp w = Inr tmpdir"
      and "create_error w (tmpdir @ ''/vmlinux'') = None"
      and "files w (path k) = Some dat"
  shows "decompress c w k =
           decompress_switch c (w\<lparr>files := (files w)(tmpdir @ ''/vmlinux'' \<mapsto> [])\<rparr>)
             (k\<lparr>pathDecompressed := tmpdir @ ''/vmlinux''\<rparr>)
             (if path k = tmpdir @ ''/vmlinux'' then [] else dat, None)"
  using assms
  by (simp add: decompress_def os_MkdirTemp_def os_Create_def os_Open_def)

text \<open>
  Claim C3 (lzma, lzo and lz4 are refused). The claim asks for an "unsupported format"
  error. Whenever the temporary directory and the destination file can be created
  and the source file opened, \<^verbatim>\<open>decompress\<close> with one of these three types returns
  \<^verbatim>\<open>nil\<close>, having done nothing but create the empty destination file: their cases
  in the switch are empty and do not fall through to \<^verbatim>\<open>default\<close>.
\<close>

theorem decompress_unimplemented_formats_succeed:
  assumes "mkdir_temp w = Inr tmpdir"
      and "create_error w (tmpdir @ ''/vmlinux'') = None"
      and "files w (path k) = Some dat"
      and "compressionType k \<in> {KERNEL_COMPRESSION_TYPE_LZMA, KERNEL_COMPRESSION_TYPE_LZO,
             KERNEL_COMPRESSION_TYPE_LZ4}"
  shows "decompress c w k =
           (w\<lparr>files := (files w)(tmpdir @ ''/vmlinux'' \<mapsto> [])\<rparr>,
            k\<lparr>pathDecompressed := tmpdir @ ''/vmlinux''\<rparr>,
            None)"
  using assms(4)
  by (auto simp: decompress_reaches_switch [OF assms(1-3)] decompress_switch_def
        compression_type_defs)

theorem decompress_unimplemented_formats_succeed_witness:
  "mkdir_temp stored_world = Inr ''/tmp/ikconfig1'' \<and>
   create_error stored_world (''/tmp/ikconfig1'' @ ''/vmlinux'') = None \<and>
   files stored_world (path (image KERNEL_COMPRESSION_TYPE_LZ4)) = Some stored_image \<and>
   snd (snd (decompress stored_codecs stored_world (image KERNEL_COMPRESSION_TYPE_LZ4))) = None \<and>
   files (fst (decompress stored_codecs stored_world (image KERNEL_COMPRESSION_TYPE_LZ4)))
     ''/tmp/ikconfig1/vmlinux'' = Some []"
proof -
  have h1: "mkdir_temp stored_world = Inr ''/tmp/ikconfig1''"
    by (simp add: stored_world_def)
  have h2: "create_error stored_world (''/tmp/ikconfig1'' @ ''/vmlinux'') = None"
    by (simp add: stored_world_def)
  have h3: "files stored_world (path (image KERNEL_COMPRESSION_TYPE_LZ4)) = Some stored_image"
    by (simp add: stored_world_def image_def)
  have h4: "compressionType (image KERNEL_COMPRESSION_TYPE_LZ4) \<in>
      {KERNEL_COMPRESSION_TYPE_LZMA, KERNEL_COMPRESSION_TYPE_LZO, KERNEL_COMPRESSION_TYPE_LZ4}"
    by (simp add: image_def)
  from decompress_unimplemented_formats_succeed [OF h1 h2 h3 h4, of stored_codecs] h1 h2 h3
  show ?thesis by simp
qed

text \<open>
  Claim C5 (the type "unknown" is probed). The claim asks for a probe of the magic
  signatures and an "unrecognized format" error when none matches. Whenever the
  three system calls succeed, \<^verbatim>\<open>decompress\<close> with the type UNKNOWN returns \<^verbatim>\<open>nil\<close>
  and an empty destination file, whatever the bytes of the source file and whatever
  the decoders: the case holds only the comment "try all the compression types".
\<close>

theorem decompress_unknown_succeeds_unprobed:
  assumes "mkdir_temp w = Inr tmpdir"
      and "create_error w (tmpdir @ ''/vmlinux'') = None"
      and "files w (path k) = Some dat"
      and "compressionType k = KERNEL_COMPRESSION_TYPE_UNKNOWN"
  shows "decompress c w k =
           (w\<lparr>files := (files w)(tmpdir @ ''/vmlinux'' \<mapsto> [])\<rparr>,
            k\<lparr>pathDecompressed := tmpdir @ ''/vmlinux''\<rparr>,
            None)"
  using assms(4)
  by (simp add: decompress_reaches_switch [OF assms(1-3)] decompress_switch_def
        compression_type_defs)

theorem decompress_unknown_succeeds_unprobed_witness:
  "mkdir_temp complemented_world = Inr ''/tmp/ikconfig1'' \<and>
   create_error complemented_world (''/tmp/ikconfig1'' @ ''/vmlinux'') = None \<and>
   files complemented_world (path (image KERNEL_COMPRESSION_TYPE_UNKNOWN)) =
     Some (map (\<lambda>x. 255 - x) plain_image) \<and>
   snd (snd (decompress stored_codecs complemented_world (image KERNEL_COMPRESSION_TYPE_UNKNOWN))) = None \<and>
   files (fst (decompress stored_codecs complemented_world (image KERNEL_COMPRESSION_TYPE_UNKNOWN)))
     ''/tmp/ikconfig1/vmlinux'' = Some []"
proof -
  have h1: "mkdir_temp complemented_world = Inr ''/tmp/ikconfig1''"
    by (simp add: complemented_world_def)
  have h2: "create_error complemented_world (''/tmp/ikconfig1'' @ ''/vmlinux'') = None"
    by (simp add: complemented_world_def)
  have h3: "files complemented_world (path (image KERNEL_COMPRESSION_TYPE_UNKNOWN)) =
      Some (map (\<lambda>x. 255 - x) plain_image)"
    by (simp add: complemented_world_def image_def)
  have h4: "compressionType (image KERNEL_COMPRESSION_TYPE_UNKNOWN) =
      KERNEL_COMPRESSION_TYPE_UNKNOWN"
    by (simp add: image_def)
  from decompress_unknown_succeeds_unprobed [OF h1 h2 h3 h4, of stored_codecs] h1 h2 h3
  show ?thesis by simp
qed


text \<open>
  Claim C4 (the marker is searched in the decompressed bytes). The claim asks for a
  scan of the decompressed bytes. \<^verbatim>\<open>findKernelConfigMagic\<close> scans \<^verbatim>\<open>k.path\<close>, the
  source file: whenever decompression succeeds and the scan of the source file ends
  without the marker, \<^verbatim>\<open>ParseKernelConfig\<close> reports "error finding magic string",
  whatever the decompressed file holds. In the example that follows the theorem the
  decompressed file starts with the marker.
\<close>

theorem ParseKernelConfig_scans_source_file:
  assumes "decompress c w k = (w1, k1, None)"
      and "os_ReadFile w1 (path k1) = Inr orig"
      and "search orig KERNEL_CONFIG_MAGIC = Inr (n, Some e)"
  shows "ParseKernelConfig c w k =
           Inr (w1, k1,
             Inl (Errorf ''error finding magic string in kernel config: %w''
                    [ArgError (MagicNotFoundErr ''magic string not found''
                                 KERNEL_CONFIG_MAGIC)]))"
proof -
  from assms(3) have "e = MagicNotFoundErr ''magic string not found'' KERNEL_CONFIG_MAGIC"
    using outer_loop_error [of orig KERNEL_CONFIG_MAGIC 0 n e] by (simp add: search_def)
  with assms show ?thesis
    by (simp add: ParseKernelConfig_def findKernelConfigMagic_def SearchBytes_def)
qed

lemma complemented_decompress:
  "decompress stored_codecs complemented_world (image KERNEL_COMPRESSION_TYPE_BZIP2) =
     (complemented_world\<lparr>files := (files complemented_world)
         (''/tmp/ikconfig1/vmlinux'' \<mapsto> map (\<lambda>x. 255 - x) (map (\<lambda>x. 255 - x) plain_image))\<rparr>,
      (image KERNEL_COMPRESSION_TYPE_BZIP2)\<lparr>pathDecompressed := ''/tmp/ikconfig1/vmlinux''\<rparr>,
      None)"
proof -
  have h1: "mkdir_temp complemented_world = Inr ''/tmp/ikconfig1''"
    by (simp add: complemented_world_def)
  have h2: "create_error complemented_world (''/tmp/ikconfig1'' @ ''/vmlinux'') = None"
    by (simp add: complemented_world_def)
  have h3: "files complemented_world (path (image KERNEL_COMPRESSION_TYPE_BZIP2)) =
      Some (map (\<lambda>x. 255 - x) plain_image)"
    by (simp add: complemented_world_def image_def)
  show ?thesis
    unfolding decompress_reaches_switch [OF h1 h2 h3]
    by (simp add: decompress_switch_def image_def compression_type_defs io_Copy_def
          stored_codecs_def)
qed

theorem ParseKernelConfig_scans_source_file_witness:
  "(\<exists>w1 k1.
      ParseKernelConfig stored_codecs complemented_world (image KERNEL_COMPRESSION_TYPE_BZIP2) =
        Inr (w1, k1,
          Inl (Errorf ''error finding magic string in kernel config: %w''
                 [ArgError (MagicNotFoundErr ''magic string not found''
                              KERNEL_CONFIG_MAGIC)])) \<and>
      os_ReadFile w1 (pathDecompressed k1) = Inr plain_image) \<and>
   occurs_at plain_image KERNEL_CONFIG_MAGIC 0"
proof -
  let ?w1 = "complemented_world\<lparr>files := (files complemented_world)
         (''/tmp/ikconfig1/vmlinux'' \<mapsto> map (\<lambda>x. 255 - x) (map (\<lambda>x. 255 - x) plain_image))\<rparr>"
  let ?k1 = "(image KERNEL_COMPRESSION_TYPE_BZIP2)\<lparr>pathDecompressed := ''/tmp/ikconfig1/vmlinux''\<rparr>"
  let ?orig = "map (\<lambda>x. 255 - x) plain_image"
  have rd: "os_ReadFile ?w1 (path ?k1) = Inr ?orig"
    by (simp add: os_ReadFile_def complemented_world_def image_def)
  have s: "search ?orig KERNEL_CONFIG_MAGIC =
             Inr (0, Some (MagicNotFoundErr ''magic string not found'' KERNEL_CONFIG_MAGIC))"
    by code_simp
  have out: "os_ReadFile ?w1 (pathDecompressed ?k1) = Inr plain_image"
    by (simp add: os_ReadFile_def o_def)
  have occ: "occurs_at plain_image KERNEL_CONFIG_MAGIC 0"
    by (simp add: occurs_at_def plain_image_def KERNEL_CONFIG_MAGIC_def)
  from ParseKernelConfig_scans_source_file [OF complemented_decompress rd s] out occ
  show ?thesis by blast
qed

text \<open>
  Claim C7 (the returned map holds the parsed lines). The claim asks for the
  \<^verbatim>\<open>KEY=VALUE\<close> pairs of the decoded text. Whenever \<^verbatim>\<open>ParseKernelConfig\<close> succeeds,
  the map it returns is empty: the function ends with \<^verbatim>\<open>return &KernelConfigMap{}, nil\<close>.
  In the example that follows the theorem the embedded stream decodes to the line
  \<^verbatim>\<open>CONFIG_A=y\<close>.
\<close>

theorem ParseKernelConfig_returns_empty_map:
  assumes "ParseKernelConfig c w k = Inr (w', k', Inr m)"
  shows "m = Map.empty"
  using assms
  by (auto simp: ParseKernelConfig_def split: prod.splits sum.splits option.splits if_splits)

lemma stored_decompress:
  "decompress stored_codecs stored_world (image KERNEL_COMPRESSION_TYPE_GZIP) =
     (stored_world\<lparr>files := (files stored_world)
         (''/tmp/ikconfig1/vmlinux'' \<mapsto> drop 3 stored_image)\<rparr>,
      (image KERNEL_COMPRESSION_TYPE_GZIP)\<lparr>pathDecompressed := ''/tmp/ikconfig1/vmlinux''\<rparr>,
      None)"
proof -
  have h1: "mkdir_temp stored_world = Inr ''/tmp/ikconfig1''"
    by (simp add: stored_world_def)
  have h2: "create_error stored_world (''/tmp/ikconfig1'' @ ''/vmlinux'') = None"
    by (simp add: stored_world_def)
  have h3: "files stored_world (path (image KERNEL_COMPRESSION_TYPE_GZIP)) = Some stored_image"
    by (simp add: stored_world_def image_def)
  have hd: "take 3 stored_image = [0x1f, 0x8b, 0x08]"
    by (simp add: stored_image_def)
  show ?thesis
    unfolding decompress_reaches_switch [OF h1 h2 h3]
    by (simp add: decompress_switch_def image_def compression_type_defs io_Copy_def
          stored_codecs_def stored_NewReader_def hd)
qed

theorem ParseKernelConfig_returns_empty_map_witness:
  "(\<exists>w1 k1.
      ParseKernelConfig stored_codecs stored_world (image KERNEL_COMPRESSION_TYPE_GZIP) =
        Inr (w1, k1, Inr Map.empty) \<and>
      (\<exists>d. os_ReadFile w1 (pathDecompressed k1) = Inr d \<and>
           stored_NewReader (drop (3 + 8) d, None) = Inr (config_text, None)))"
proof -
  let ?w1 = "stored_world\<lparr>files := (files stored_world)
         (''/tmp/ikconfig1/vmlinux'' \<mapsto> drop 3 stored_image)\<rparr>"
  let ?k1 = "(image KERNEL_COMPRESSION_TYPE_GZIP)\<lparr>pathDecompressed := ''/tmp/ikconfig1/vmlinux''\<rparr>"
  have s: "search stored_image KERNEL_CONFIG_MAGIC = Inr (3, None)"
    by code_simp
  have rd: "os_ReadFile ?w1 ''vmlinuz'' = Inr stored_image"
    by (simp add: os_ReadFile_def stored_world_def)
  have out: "os_ReadFile ?w1 ''/tmp/ikconfig1/vmlinux'' = Inr (drop 3 stored_image)"
    by (simp add: os_ReadFile_def)
  have cfg: "os_Open ?w1 ''config'' = Inr ([], None)"
    by (simp add: os_Open_def stored_world_def)
  have inner: "stored_NewReader (drop (3 + 8) (drop 3 stored_image), None) = Inr (config_text, None)"
    by (simp add: stored_NewReader_def stored_image_def)
  have len: "\<not> length (drop 3 stored_image) < 3 + 8"
    by (simp add: stored_image_def config_text_def)
  have run: "\<exists>m. ParseKernelConfig stored_codecs stored_world (image KERNEL_COMPRESSION_TYPE_GZIP) =
        Inr (?w1, ?k1, Inr m)"
    using stored_decompress s rd out cfg inner len
    by (simp add: ParseKernelConfig_def findKernelConfigMagic_def
          SearchBytes_def image_def stored_codecs_def)
  then obtain m where m: "ParseKernelConfig stored_codecs stored_world
      (image KERNEL_COMPRESSION_TYPE_GZIP) = Inr (?w1, ?k1, Inr m)" by blast
  from ParseKernelConfig_returns_empty_map [OF m] m
  have "ParseKernelConfig stored_codecs stored_world (image KERNEL_COMPRESSION_TYPE_GZIP) =
        Inr (?w1, ?k1, Inr Map.empty)" by simp
  moreover have "os_ReadFile ?w1 (pathDecompressed ?k1) = Inr (drop 3 stored_image)"
    using out by simp
  ultimately show ?thesis using inner by blast
qed

end
